theory Spec2Isabelle
  imports Complex_Main
begin

section \<open>The elastic line of a beam under point loads\<close>

text \<open>
  A shallow embedding of the class \<open>linhaElastica\<close> of
  \<^verbatim>\<open>Implementacao_Deflexao_Analitica.py\<close>.

  The numbers the class receives are exact reals, each tagged with what it is at run
  time: a Python number or a numpy scalar (an element of an \<open>ndarray\<close>, as the loads of
  the \<^verbatim>\<open>__main__\<close> block are). The tag decides what a zero divisor does: between
  Python numbers \<^verbatim>\<open>/\<close> raises \<open>ZeroDivisionError\<close>; as soon as one operand is a numpy
  scalar it raises nothing and gives \<open>inf\<close> or \<open>nan\<close> (with a \<open>RuntimeWarning\<close>, which
  is not a printed line). Rounding and overflow belong to floating point and are outside
  this model.
\<close>

subsection \<open>Numbers\<close>

datatype num = Py real | Np real

fun val :: "num \<Rightarrow> real" where
  "val (Py r) = r"
| "val (Np r) = r"

fun is_py :: "num \<Rightarrow> bool" where
  "is_py (Py r) = True"
| "is_py (Np r) = False"

text \<open>
  A computed number is \<open>Some n\<close>, or \<open>None\<close> for a numpy scalar that is \<open>inf\<close> or
  \<open>nan\<close>. The result of an operation is a Python number only if both operands are.
\<close>

definition mk :: "bool \<Rightarrow> real \<Rightarrow> num" where
  "mk p r = (if p then Py r else Np r)"

text \<open>\<^verbatim>\<open>a * b\<close> and \<^verbatim>\<open>a ** n\<close> on the numbers received.\<close>

definition py_mul :: "num \<Rightarrow> num \<Rightarrow> num" where
  "py_mul a b = mk (is_py a \<and> is_py b) (val a * val b)"

definition py_pow :: "num \<Rightarrow> nat \<Rightarrow> num" where
  "py_pow a n = mk (is_py a) (val a ^ n)"

subsection \<open>Exceptions raised inside the methods\<close>

datatype exn = TypeError | IndexError | ZeroDivisionError

text \<open>Sequencing of computations that may raise: the first exception wins.\<close>

fun bind :: "exn + 'a \<Rightarrow> ('a \<Rightarrow> exn + 'b) \<Rightarrow> exn + 'b" where
  "bind (Inl e) f = Inl e"
| "bind (Inr v) f = f v"

text \<open>
  \<^verbatim>\<open>a / b\<close>, where \<open>a\<close> is a computed number and \<open>b\<close> one of the numbers
  received. Two Python numbers: a zero divisor raises. Otherwise the division is
  numpy's: a zero divisor gives \<open>inf\<close> or \<open>nan\<close>, and so does every division of
  \<open>inf\<close> or \<open>nan\<close> by a number.
\<close>

definition py_div :: "num option \<Rightarrow> num \<Rightarrow> exn + num option" where
  "py_div a b =
     (case a of
        None \<Rightarrow> Inr None
      | Some a' \<Rightarrow>
          if is_py a' \<and> is_py b then
            (if val b = 0 then Inl ZeroDivisionError else Inr (Some (Py (val a' / val b))))
          else
            (if val b = 0 then Inr None else Inr (Some (Np (val a' / val b)))))"

text \<open>
  \<^verbatim>\<open>a - b\<close> and \<^verbatim>\<open>a + b\<close> on computed numbers: \<open>inf\<close> and \<open>nan\<close> stay
  \<open>inf\<close> or \<open>nan\<close>.
\<close>

definition py_sub :: "num option \<Rightarrow> num option \<Rightarrow> num option" where
  "py_sub a b =
     (case a of
        None \<Rightarrow> None
      | Some a' \<Rightarrow>
          (case b of
             None \<Rightarrow> None
           | Some b' \<Rightarrow> Some (mk (is_py a' \<and> is_py b') (val a' - val b'))))"

definition py_add :: "num option \<Rightarrow> num option \<Rightarrow> num option" where
  "py_add a b =
     (case a of
        None \<Rightarrow> None
      | Some a' \<Rightarrow>
          (case b of
             None \<Rightarrow> None
           | Some b' \<Rightarrow> Some (mk (is_py a' \<and> is_py b') (val a' + val b'))))"

text \<open>
  \<^verbatim>\<open>result[i] += t\<close> on the array made by \<^verbatim>\<open>np.zeros_like\<close>: its elements are
  numpy floats, \<open>Some r\<close> when finite and \<open>None\<close> when \<open>inf\<close> or \<open>nan\<close>.
\<close>

definition np_iadd :: "real option \<Rightarrow> num option \<Rightarrow> real option" where
  "np_iadd r t =
     (case r of
        None \<Rightarrow> None
      | Some r' \<Rightarrow> (case t of None \<Rightarrow> None | Some t' \<Rightarrow> Some (r' + val t')))"

text \<open>
  \<^verbatim>\<open>self.x[j]\<close> for an index \<open>j \<ge> 0\<close>: subscripting \<open>None\<close> raises
  \<open>TypeError\<close>, an index past the end raises \<open>IndexError\<close>.
\<close>

definition py_index :: "num list option \<Rightarrow> nat \<Rightarrow> exn + num" where
  "py_index seq j =
     (case seq of
        None \<Rightarrow> Inl TypeError
      | Some xs \<Rightarrow> if j < length xs then Inr (xs ! j) else Inl IndexError)"

text \<open>\<^verbatim>\<open>enumerate(self.P)\<close>: iterating \<open>None\<close> raises \<open>TypeError\<close>.\<close>

definition py_enumerate :: "num list option \<Rightarrow> exn + (nat \<times> num) list" where
  "py_enumerate seq =
     (case seq of
        None \<Rightarrow> Inl TypeError
      | Some ps \<Rightarrow> Inr (zip [0..<length ps] ps))"

subsection \<open>The object\<close>

text \<open>
  The five attributes set by \<^verbatim>\<open>__init__\<close>. \<open>self.P\<close> and \<open>self.x\<close> start as
  \<open>None\<close>; \<open>self.I\<close> defaults to \<open>0\<close>.
\<close>

record linhaElastica =
  self_L :: num
  self_E :: num
  self_I :: num
  self_P :: "num list option"
  self_x :: "num list option"

definition init :: "num \<Rightarrow> num \<Rightarrow> num \<Rightarrow> linhaElastica" where
  "init L E I = \<lparr>self_L = L, self_E = E, self_I = I, self_P = None, self_x = None\<rparr>"

text \<open>The two messages printed by the handlers (the second one in UTF-8 bytes).\<close>

definition msg_carregamento :: string where
  "msg_carregamento = ''Houve um erro, o carregamento foi definido?''"

definition msg_inercia :: string where
  "msg_inercia =
     ''Houve um erro, o momento de in'' @ [CHR 0xC3, CHR 0xA9] @ ''rcia foi definido?''"

subsection \<open>One term of the superposition\<close>

text \<open>
  The summand of lines 110--113 (\<open>d\<close> is \<open>self.I\<close>) and of lines 141--144 (\<open>d\<close> is
  \<open>y\<close>), the two being the same expression up to that divisor:
  \<^verbatim>\<open>
  if x[i] < self.x[j]:
      (P*x[i]**3)/6/self.E/d - (P*self.x[j]*x[i]**2)/2/self.E/d
  else:
      (P*self.x[j]**3)/6/self.E/d - (P*x[i]*self.x[j]**2)/2/self.E/d
  \<close>
  The divisions are evaluated left to right; the literals \<open>6\<close> and \<open>2\<close> are Python
  numbers.
\<close>

definition parcela :: "num \<Rightarrow> num \<Rightarrow> num \<Rightarrow> num \<Rightarrow> num \<Rightarrow> exn + num option" where
  "parcela E d P xj xi =
     (if val xi < val xj then
        bind (py_div (Some (py_mul P (py_pow xi 3))) (Py 6)) (\<lambda>a.
        bind (py_div a E) (\<lambda>a.
        bind (py_div a d) (\<lambda>a.
        bind (py_div (Some (py_mul (py_mul P xj) (py_pow xi 2))) (Py 2)) (\<lambda>b.
        bind (py_div b E) (\<lambda>b.
        bind (py_div b d) (\<lambda>b.
        Inr (py_sub a b)))))))
      else
        bind (py_div (Some (py_mul P (py_pow xj 3))) (Py 6)) (\<lambda>a.
        bind (py_div a E) (\<lambda>a.
        bind (py_div a d) (\<lambda>a.
        bind (py_div (Some (py_mul (py_mul P xi) (py_pow xj 2))) (Py 2)) (\<lambda>b.
        bind (py_div b E) (\<lambda>b.
        bind (py_div b d) (\<lambda>b.
        Inr (py_sub a b))))))))"

text \<open>The body of the inner loop for load \<open>j\<close>: read \<open>self.x[j]\<close>, then the summand.\<close>

definition termo :: "linhaElastica \<Rightarrow> num \<Rightarrow> num \<Rightarrow> nat \<Rightarrow> num \<Rightarrow> exn + num option" where
  "termo s d xi j P = bind (py_index (self_x s) j) (\<lambda>xj. parcela (self_E s) d P xj xi)"

subsection \<open>\<open>get_y\<close>\<close>

text \<open>
  The loops run inside \<^verbatim>\<open>try\<close> and update \<open>result\<close> in place, so an exception
  leaves the array as it was when the exception was raised. Each loop returns the array
  and the pending exception, if any.
\<close>

fun loop_j ::
  "linhaElastica \<Rightarrow> num list \<Rightarrow> nat \<Rightarrow> (nat \<times> num) list \<Rightarrow> real option list
     \<Rightarrow> real option list \<times> exn option"
where
  "loop_j s xs i [] result = (result, None)"
| "loop_j s xs i ((j, P) # rest) result =
     (case termo s (self_I s) (xs ! i) j P of
        Inl e \<Rightarrow> (result, Some e)
      | Inr t \<Rightarrow> loop_j s xs i rest (result[i := np_iadd (result ! i) t]))"

fun loop_i ::
  "linhaElastica \<Rightarrow> num list \<Rightarrow> nat list \<Rightarrow> real option list
     \<Rightarrow> real option list \<times> exn option"
where
  "loop_i s xs [] result = (result, None)"
| "loop_i s xs (i # later) result =
     (case py_enumerate (self_P s) of
        Inl e \<Rightarrow> (result, Some e)
      | Inr ps \<Rightarrow>
          (case loop_j s xs i ps result of
             (result', Some e) \<Rightarrow> (result', Some e)
           | (result', None) \<Rightarrow> loop_i s xs later result'))"

text \<open>
  \<open>get_y\<close> returns the array and the lines it printed. The bare \<^verbatim>\<open>except:\<close>
  catches every exception, so the call always returns.
\<close>

definition get_y :: "linhaElastica \<Rightarrow> num list \<Rightarrow> real option list \<times> string list" where
  "get_y s xs =
     (let result = replicate (length xs) (Some 0) in
      if val (self_I s) \<noteq> 0 then
        (case loop_i s xs [0..<length xs] result of
           (result', None) \<Rightarrow> (result', [])
         | (result', Some e) \<Rightarrow> (result', [msg_carregamento]))
      else (result, [msg_inercia]))"

subsection \<open>\<open>get_I\<close>\<close>

text \<open>The accumulator starts as the Python number \<open>0\<close>.\<close>

fun loop_I ::
  "linhaElastica \<Rightarrow> num \<Rightarrow> num \<Rightarrow> (nat \<times> num) list \<Rightarrow> num option \<Rightarrow> num option \<times> exn option"
where
  "loop_I s y x [] result = (result, None)"
| "loop_I s y x ((j, P) # rest) result =
     (case termo s y x j P of
        Inl e \<Rightarrow> (result, Some e)
      | Inr t \<Rightarrow> loop_I s y x rest (py_add result t))"

definition get_I :: "linhaElastica \<Rightarrow> num \<Rightarrow> num \<Rightarrow> num option \<times> string list" where
  "get_I s y x =
     (case py_enumerate (self_P s) of
        Inl e \<Rightarrow> (Some (Py 0), [msg_carregamento])
      | Inr ps \<Rightarrow>
          (case loop_I s y x ps (Some (Py 0)) of
             (result, None) \<Rightarrow> (result, [])
           | (result, Some e) \<Rightarrow> (result, [msg_carregamento])))"

subsection \<open>The mutators, on a store of objects\<close>

text \<open>
  \<open>set_P\<close> and \<open>set_I\<close> assign attributes of \<open>self\<close> and return \<open>self\<close>. Objects
  live in a store and are named by references, so that the identity of the returned object
  can be stated. A method call on a reference that names no object yields \<open>None\<close>.
  The arguments are stored as values: later changes a caller makes to a list it passed
  in are not modelled.
\<close>

type_synonym ref = nat
type_synonym store = "ref \<rightharpoonup> linhaElastica"

definition set_P :: "store \<Rightarrow> ref \<Rightarrow> num list \<Rightarrow> num list \<Rightarrow> (store \<times> ref) option" where
  "set_P h self P x =
     (case h self of
        None \<Rightarrow> None
      | Some s \<Rightarrow> Some (h(self \<mapsto> s\<lparr>self_P := Some P, self_x := Some x\<rparr>), self))"

definition set_I :: "store \<Rightarrow> ref \<Rightarrow> num \<Rightarrow> (store \<times> ref) option" where
  "set_I h self I =
     (case h self of
        None \<Rightarrow> None
      | Some s \<Rightarrow> Some (h(self \<mapsto> s\<lparr>self_I := I\<rparr>), self))"

text \<open>
  \<open>get_y\<close> and \<open>get_I\<close> called on a reference: they read the object and assign no
  attribute, so the store they leave is the one they found.
\<close>

definition call_get_y ::
  "store \<Rightarrow> ref \<Rightarrow> num list \<Rightarrow> (store \<times> real option list \<times> string list) option" where
  "call_get_y h self xs =
     (case h self of
        None \<Rightarrow> None
      | Some s \<Rightarrow> Some (h, get_y s xs))"

definition call_get_I ::
  "store \<Rightarrow> ref \<Rightarrow> num \<Rightarrow> num \<Rightarrow> (store \<times> num option \<times> string list) option" where
  "call_get_I h self y x =
     (case h self of
        None \<Rightarrow> None
      | Some s \<Rightarrow> Some (h, get_I s y x))"

subsection \<open>The closed form of one load's contribution\<close>

text \<open>
  The piecewise formula as the specification writes it, with the product of the
  divisors in one denominator: \<open>d\<close> is \<open>I\<close> for the deflection and \<open>y\<close> for the
  inverse.
\<close>

definition spec_term :: "real \<Rightarrow> real \<Rightarrow> real \<Rightarrow> real \<Rightarrow> real \<Rightarrow> real" where
  "spec_term E d P xj xi =
     (if xi < xj then P * xi ^ 3 / (6 * E * d) - P * xj * xi ^ 2 / (2 * E * d)
      else P * xj ^ 3 / (6 * E * d) - P * xi * xj ^ 2 / (2 * E * d))"

section \<open>Properties of the loops\<close>

subsection \<open>Numbers and single terms\<close>

lemma val_mk [simp]: "val (mk p r) = r"
  by (simp add: mk_def)

lemma is_py_mk [simp]: "is_py (mk p r) = p"
  by (simp add: mk_def)

lemma py_div_Some:
  "py_div (Some a) b =
     (if val b = 0 then (if is_py a \<and> is_py b then Inl ZeroDivisionError else Inr None)
      else Inr (Some (mk (is_py a \<and> is_py b) (val a / val b))))"
  by (simp add: py_div_def mk_def)

lemma py_div_None: "py_div None b = Inr None"
  by (simp add: py_div_def)

text \<open>What one summand evaluates to, by cases on the two divisors.\<close>

lemma parcela_ok:
  assumes "val E \<noteq> 0" and "val d \<noteq> 0"
  shows "parcela E d P xj xi =
           Inr (Some (mk (is_py P \<and> is_py xj \<and> is_py xi \<and> is_py E \<and> is_py d)
                        (spec_term (val E) (val d) (val P) (val xj) (val xi))))"
  using assms
  by (simp add: parcela_def py_div_Some py_sub_def py_mul_def py_pow_def spec_term_def conj_ac)

lemma parcela_E_zero:
  assumes "val E = 0"
  shows "parcela E d P xj xi =
           (if is_py P \<and> is_py (if val xi < val xj then xi else xj) \<and> is_py E
            then Inl ZeroDivisionError else Inr None)"
  using assms
  by (auto simp add: parcela_def py_div_Some py_div_None py_sub_def py_mul_def py_pow_def)

lemma parcela_d_zero:
  assumes "val E \<noteq> 0" and "val d = 0"
  shows "parcela E d P xj xi =
           (if is_py P \<and> is_py (if val xi < val xj then xi else xj) \<and> is_py E \<and> is_py d
            then Inl ZeroDivisionError else Inr None)"
  using assms
  by (auto simp add: parcela_def py_div_Some py_div_None py_sub_def py_mul_def py_pow_def)

lemma termo_ok:
  "self_x s = Some Xs \<Longrightarrow> j < length Xs \<Longrightarrow> val (self_E s) \<noteq> 0 \<Longrightarrow> val d \<noteq> 0 \<Longrightarrow>
   termo s d xi j P =
     Inr (Some (mk (is_py P \<and> is_py (Xs ! j) \<and> is_py xi \<and> is_py (self_E s) \<and> is_py d)
                  (spec_term (val (self_E s)) (val d) (val P) (val (Xs ! j)) (val xi))))"
  by (simp add: termo_def py_index_def parcela_ok)

lemma val_py_add:
  "map_option val (py_add a (Some n)) = map_option (\<lambda>v. v + val n) (map_option val a)"
  by (cases a) (simp_all add: py_add_def)

lemma py_add_None: "py_add a None = None"
  by (cases a) (simp_all add: py_add_def)

lemma np_iadd_py_add: "map_option Np (np_iadd r t) = py_add (map_option Np r) t"
  by (cases r; cases t) (simp_all add: np_iadd_def py_add_def mk_def)

lemma val_Np_option: "map_option val (map_option Np r) = r"
  by (cases r) simp_all

subsection \<open>The loops when no term fails\<close>

lemma enumerate_Cons:
  "zip [k..<k + length (P # Ps)] (P # Ps) = (k, P) # zip [Suc k..<Suc k + length Ps] Ps"
  using upt_conv_Cons [of k "k + length (P # Ps)"] by simp

lemma loop_I_ok:
  "self_x s = Some Xs \<Longrightarrow> val (self_E s) \<noteq> 0 \<Longrightarrow> val d \<noteq> 0 \<Longrightarrow> k + length Ps \<le> length Xs \<Longrightarrow>
   \<exists>r. loop_I s d x (zip [k..<k + length Ps] Ps) acc = (r, None) \<and>
       map_option val r =
         map_option
           (\<lambda>a. a + sum_list (map2 (\<lambda>P xj. spec_term (val (self_E s)) (val d) (val P) (val xj) (val x))
                                Ps (drop k Xs)))
           (map_option val acc)"
proof (induction Ps arbitrary: k acc)
  case Nil
  then show ?case by (simp add: option.map_ident)
next
  case (Cons P Ps)
  let ?f = "\<lambda>P xj. spec_term (val (self_E s)) (val d) (val P) (val xj) (val x)"
  have k: "k < length Xs" using Cons.prems by simp
  have dr: "drop k Xs = Xs ! k # drop (Suc k) Xs"
    using k by (simp add: Cons_nth_drop_Suc)
  obtain n where t: "termo s d x k P = Inr (Some n)" and n: "val n = ?f P (Xs ! k)"
    using termo_ok [of s Xs k d x P] Cons.prems k by simp
  have step: "loop_I s d x (zip [k..<k + length (P # Ps)] (P # Ps)) acc =
        loop_I s d x (zip [Suc k..<Suc k + length Ps] Ps) (py_add acc (Some n))"
    by (simp only: enumerate_Cons loop_I.simps t sum.case)
  obtain r where r: "loop_I s d x (zip [Suc k..<Suc k + length Ps] Ps) (py_add acc (Some n)) = (r, None)"
    and v: "map_option val r =
         map_option (\<lambda>a. a + sum_list (map2 ?f Ps (drop (Suc k) Xs)))
           (map_option val (py_add acc (Some n)))"
    using Cons.IH [of "Suc k" "py_add acc (Some n)"] Cons.prems by auto
  have "map_option val r =
          map_option (\<lambda>a. a + sum_list (map2 ?f (P # Ps) (drop k Xs))) (map_option val acc)"
    by (simp add: v val_py_add n dr option.map_comp comp_def add.assoc)
  then show ?case using step r by simp
qed

lemma loop_j_loop_I:
  "i < length result \<Longrightarrow>
   loop_j s xs i ps result =
     (case loop_I s (self_I s) (xs ! i) ps (map_option Np (result ! i)) of
        (r, e) \<Rightarrow> (result[i := map_option val r], e))"
proof (induction ps arbitrary: result)
  case Nil
  then show ?case by (simp add: val_Np_option)
next
  case (Cons p ps)
  obtain j P where p: "p = (j, P)" by (cases p)
  show ?case
  proof (cases "termo s (self_I s) (xs ! i) j P")
    case (Inl e)
    then show ?thesis using Cons.prems by (simp add: p val_Np_option)
  next
    case (Inr t)
    let ?r = "result[i := np_iadd (result ! i) t]"
    have "loop_j s xs i (p # ps) result = loop_j s xs i ps ?r"
      by (simp add: p Inr)
    also have "\<dots> = (case loop_I s (self_I s) (xs ! i) ps (map_option Np (?r ! i)) of
                      (r, e) \<Rightarrow> (?r[i := map_option val r], e))"
      using Cons.prems by (intro Cons.IH) simp
    finally show ?thesis using Cons.prems by (simp add: p Inr np_iadd_py_add)
  qed
qed

lemma loop_i_ok:
  assumes en: "py_enumerate (self_P s) = Inr ps"
      and ok: "\<And>xi acc. \<exists>r. loop_I s (self_I s) xi ps acc = (r, None) \<and>
                 map_option val r = map_option (\<lambda>a. a + S xi) (map_option val acc)"
  shows "distinct idxs \<Longrightarrow> \<forall>i \<in> set idxs. i < length result \<Longrightarrow>
         loop_i s xs idxs result =
           (map (\<lambda>i. if i \<in> set idxs then map_option (\<lambda>a. a + S (xs ! i)) (result ! i)
                      else result ! i)
              [0..<length result], None)"
proof (induction idxs arbitrary: result)
  case Nil
  then show ?case by (simp add: map_nth)
next
  case (Cons i idxs)
  let ?r = "result[i := map_option (\<lambda>a. a + S (xs ! i)) (result ! i)]"
  have i: "i < length result" "i \<notin> set idxs" using Cons.prems by simp_all
  obtain r where r: "loop_I s (self_I s) (xs ! i) ps (map_option Np (result ! i)) = (r, None)"
    and v: "map_option val r =
              map_option (\<lambda>a. a + S (xs ! i)) (map_option val (map_option Np (result ! i)))"
    using ok [of "xs ! i" "map_option Np (result ! i)"] by auto
  have j: "loop_j s xs i ps result = (?r, None)"
    using i(1) by (simp add: loop_j_loop_I r v val_Np_option)
  have "loop_i s xs (i # idxs) result = loop_i s xs idxs ?r"
    by (simp add: en j)
  also have "\<dots> = (map (\<lambda>k. if k \<in> set idxs then map_option (\<lambda>a. a + S (xs ! k)) (?r ! k)
                             else ?r ! k)
                      [0..<length ?r], None)"
    using Cons.prems by (intro Cons.IH) simp_all
  also have "map (\<lambda>k. if k \<in> set idxs then map_option (\<lambda>a. a + S (xs ! k)) (?r ! k) else ?r ! k)
               [0..<length ?r] =
             map (\<lambda>k. if k \<in> set (i # idxs) then map_option (\<lambda>a. a + S (xs ! k)) (result ! k)
                       else result ! k)
               [0..<length result]"
    using i by (auto simp add: nth_list_update)
  finally show ?case .
qed

lemma get_y_sum:
  assumes P: "self_P s = Some Ps" and X: "self_x s = Some Xs"
      and len: "length Ps \<le> length Xs"
      and E: "val (self_E s) \<noteq> 0" and I: "val (self_I s) \<noteq> 0"
  shows "get_y s xs =
           (map (\<lambda>xi. Some (sum_list (map2
                   (\<lambda>P xj. spec_term (val (self_E s)) (val (self_I s)) (val P) (val xj) (val xi))
                   Ps Xs))) xs,
            [])"
proof -
  let ?S = "\<lambda>xi. sum_list (map2
              (\<lambda>P xj. spec_term (val (self_E s)) (val (self_I s)) (val P) (val xj) (val xi)) Ps Xs)"
  have en: "py_enumerate (self_P s) = Inr (zip [0..<length Ps] Ps)"
    by (simp add: py_enumerate_def P)
  have ok: "\<exists>r. loop_I s (self_I s) xi (zip [0..<length Ps] Ps) acc = (r, None) \<and>
              map_option val r = map_option (\<lambda>a. a + ?S xi) (map_option val acc)"
    for xi acc
    using loop_I_ok [OF X E I, of 0 Ps xi acc] len by simp
  let ?z = "replicate (length xs) (Some (0::real))"
  have "loop_i s xs [0..<length xs] ?z =
          (map (\<lambda>i. if i \<in> set [0..<length xs]
                     then map_option (\<lambda>a. a + ?S (xs ! i)) (?z ! i)
                     else ?z ! i)
             [0..<length ?z], None)"
    by (rule loop_i_ok [OF en ok]) simp_all
  also have "map (\<lambda>i. if i \<in> set [0..<length xs]
                     then map_option (\<lambda>a. a + ?S (xs ! i)) (?z ! i)
                     else ?z ! i)
             [0..<length ?z] = map (\<lambda>xi. Some (?S xi)) xs"
    by (rule nth_equalityI) simp_all
  finally show ?thesis
    using I by (simp add: get_y_def)
qed

subsection \<open>A zero divisor\<close>

lemma termo_zero_divisor:
  assumes "val (self_E s) = 0 \<or> val d = 0"
  shows "(\<exists>e. termo s d xi j P = Inl e) \<or> termo s d xi j P = Inr None"
proof (cases "py_index (self_x s) j")
  case (Inl e)
  then show ?thesis by (simp add: termo_def)
next
  case (Inr xj)
  show ?thesis
  proof (cases "val (self_E s) = 0")
    case True
    then show ?thesis by (simp add: termo_def Inr parcela_E_zero)
  next
    case False
    then show ?thesis using assms by (simp add: termo_def Inr parcela_d_zero)
  qed
qed

lemma termo_zero_divisor_py:
  assumes z: "val (self_E s) = 0 \<or> val d = 0"
      and py: "is_py (self_E s)" "is_py d" "is_py P" "is_py xi"
              "\<And>Xs. self_x s = Some Xs \<Longrightarrow> list_all is_py Xs"
  shows "\<exists>e. termo s d xi j P = Inl e"
proof (cases "py_index (self_x s) j")
  case (Inl e)
  then show ?thesis by (simp add: termo_def)
next
  case (Inr xj)
  then obtain Xs where X: "self_x s = Some Xs" "j < length Xs" "xj = Xs ! j"
    by (auto simp add: py_index_def split: option.splits if_splits)
  then have xj: "is_py xj" using py(5) [of Xs] by (simp add: list_all_length)
  show ?thesis
  proof (cases "val (self_E s) = 0")
    case True
    then show ?thesis using py xj by (simp add: termo_def Inr parcela_E_zero)
  next
    case False
    then show ?thesis using z py xj by (simp add: termo_def Inr parcela_d_zero)
  qed
qed

lemma termo_zero_divisor_np:
  assumes "val (self_E s) = 0 \<or> val d = 0" and "\<not> is_py P"
      and "self_x s = Some Xs" and "j < length Xs"
  shows "termo s d xi j P = Inr None"
proof (cases "val (self_E s) = 0")
  case True
  then show ?thesis using assms by (simp add: termo_def py_index_def parcela_E_zero)
next
  case False
  then show ?thesis using assms by (simp add: termo_def py_index_def parcela_d_zero)
qed

lemma loop_I_zero_divisor:
  "val (self_E s) = 0 \<or> val d = 0 \<Longrightarrow>
   fst (loop_I s d x ps acc) = acc \<or> fst (loop_I s d x ps acc) = None"
proof (induction ps arbitrary: acc)
  case Nil
  then show ?case by simp
next
  case (Cons p ps)
  obtain j P where p: "p = (j, P)" by (cases p)
  from termo_zero_divisor [OF Cons.prems, of x j P] show ?case
  proof
    assume "\<exists>e. termo s d x j P = Inl e"
    then show ?thesis by (auto simp add: p)
  next
    assume t: "termo s d x j P = Inr None"
    from Cons.IH [OF Cons.prems, of None] have "fst (loop_I s d x ps None) = None" by simp
    then show ?thesis by (simp add: p t py_add_None)
  qed
qed

lemma loop_I_first_raises:
  "ps \<noteq> [] \<Longrightarrow> (\<And>j P. (j, P) \<in> set ps \<Longrightarrow> \<exists>e. termo s d x j P = Inl e) \<Longrightarrow>
   \<exists>e. loop_I s d x ps acc = (acc, Some e)"
proof (cases ps)
  case Nil
  assume "ps \<noteq> []"
  then show ?thesis using Nil by simp
next
  case (Cons p rest)
  assume r: "\<And>j P. (j, P) \<in> set ps \<Longrightarrow> \<exists>e. termo s d x j P = Inl e"
  obtain j P where p: "p = (j, P)" by (cases p)
  from r [of j P] obtain e where "termo s d x j P = Inl e" by (auto simp add: Cons p)
  then show ?thesis by (simp add: Cons p)
qed

lemma loop_I_all_None:
  "(\<And>j P. (j, P) \<in> set ps \<Longrightarrow> termo s d x j P = Inr None) \<Longrightarrow> ps \<noteq> [] \<or> acc = None \<Longrightarrow>
   loop_I s d x ps acc = (None, None)"
proof (induction ps arbitrary: acc)
  case Nil
  then show ?case by simp
next
  case (Cons p ps)
  obtain j P where p: "p = (j, P)" by (cases p)
  have t: "termo s d x j P = Inr None" using Cons.prems(1) [of j P] by (simp add: p)
  have "loop_I s d x ps None = (None, None)"
    using Cons.prems(1) by (intro Cons.IH) simp_all
  then show ?case by (simp add: p t py_add_None)
qed

lemma get_I_zero_py:
  assumes z: "val y = 0"
      and py: "is_py y" "is_py x" "is_py (self_E s)"
      and P: "self_P s = Some Ps" "list_all is_py Ps" "Ps \<noteq> []"
      and X: "\<And>Xs. self_x s = Some Xs \<Longrightarrow> list_all is_py Xs"
  shows "get_I s y x = (Some (Py 0), [msg_carregamento])"
proof -
  have "\<exists>e. termo s y x j Q = Inl e" if "(j, Q) \<in> set (zip [0..<length Ps] Ps)" for j Q
  proof -
    from that have "Q \<in> set Ps" by (rule set_zip_rightD)
    then have "is_py Q" using P(2) by (simp add: list_all_iff)
    then show ?thesis using termo_zero_divisor_py [of s y Q x j] z py X by simp
  qed
  moreover have "zip [0..<length Ps] Ps \<noteq> []" using P(3) by (cases Ps) simp_all
  ultimately obtain e where
    "loop_I s y x (zip [0..<length Ps] Ps) (Some (Py 0)) = (Some (Py 0), Some e)"
    using loop_I_first_raises [of "zip [0..<length Ps] Ps" s y x "Some (Py 0)"] by blast
  then show ?thesis by (simp add: get_I_def py_enumerate_def P(1))
qed

lemma get_I_zero_np:
  assumes z: "val y = 0"
      and P: "self_P s = Some Ps" "list_all (\<lambda>P. \<not> is_py P) Ps" "Ps \<noteq> []"
      and X: "self_x s = Some Xs" "length Ps \<le> length Xs"
  shows "get_I s y x = (None, [])"
proof -
  have "termo s y x j Q = Inr None" if "(j, Q) \<in> set (zip [0..<length Ps] Ps)" for j Q
  proof -
    from that have Q: "Q \<in> set Ps" by (rule set_zip_rightD)
    from that have "j \<in> set [0..<length Ps]" by (rule set_zip_leftD)
    then have j: "j < length Xs" using X(2) by simp
    have "\<not> is_py Q" using P(2) Q by (simp add: list_all_iff)
    then show ?thesis using termo_zero_divisor_np [of s y Q Xs j x] z X(1) j by simp
  qed
  moreover have "zip [0..<length Ps] Ps \<noteq> []" using P(3) by (cases Ps) simp_all
  ultimately have "loop_I s y x (zip [0..<length Ps] Ps) (Some (Py 0)) = (None, None)"
    by (intro loop_I_all_None) simp_all
  then show ?thesis by (simp add: get_I_def py_enumerate_def P(1))
qed

subsection \<open>Lengths, and a zero modulus among Python numbers\<close>

lemma loop_j_length: "length (fst (loop_j s xs i ps result)) = length result"
proof (induction ps arbitrary: result)
  case Nil
  then show ?case by simp
next
  case (Cons p ps)
  obtain j P where p: "p = (j, P)" by (cases p)
  show ?case
    by (cases "termo s (self_I s) (xs ! i) j P") (simp_all add: p Cons.IH)
qed

lemma loop_i_length: "length (fst (loop_i s xs idxs result)) = length result"
proof (induction idxs arbitrary: result)
  case Nil
  then show ?case by simp
next
  case (Cons i idxs)
  show ?case
  proof (cases "py_enumerate (self_P s)")
    case (Inl e)
    then show ?thesis by simp
  next
    case (Inr ps)
    obtain r e where j: "loop_j s xs i ps result = (r, e)" by (cases "loop_j s xs i ps result")
    have "length r = length result" using loop_j_length [of s xs i ps result] j by simp
    then show ?thesis using Cons.IH [of r] by (cases e) (simp_all add: Inr j)
  qed
qed

lemma get_y_length: "length (fst (get_y s xs)) = length xs"
proof (cases "val (self_I s) = 0")
  case True
  then show ?thesis by (simp add: get_y_def)
next
  case False
  obtain r e where l: "loop_i s xs [0..<length xs] (replicate (length xs) (Some 0)) = (r, e)"
    by (cases "loop_i s xs [0..<length xs] (replicate (length xs) (Some 0))")
  have "length r = length xs"
    using loop_i_length [of s xs "[0..<length xs]" "replicate (length xs) (Some 0)"] l by simp
  then show ?thesis using False by (cases e) (simp_all add: get_y_def l)
qed

text \<open>A zero modulus among Python numbers: every term raises and the array stays as it is.\<close>

lemma loop_j_E_zero_py:
  assumes E: "val (self_E s) = 0" "is_py (self_E s)" "is_py (self_I s)"
      and P: "\<And>j P. (j, P) \<in> set ps \<Longrightarrow> is_py P"
      and X: "\<And>Xs. self_x s = Some Xs \<Longrightarrow> list_all is_py Xs"
      and xi: "is_py (xs ! i)" and i: "i < length result"
  shows "fst (loop_j s xs i ps result) = result"
proof (cases ps)
  case Nil
  then show ?thesis by simp
next
  case (Cons p rest)
  have "\<exists>e. termo s (self_I s) (xs ! i) j Q = Inl e" if "(j, Q) \<in> set ps" for j Q
    using termo_zero_divisor_py [of s "self_I s" Q "xs ! i" j] E P [OF that] X xi by simp
  then obtain e where
    "loop_I s (self_I s) (xs ! i) ps (map_option Np (result ! i)) = (map_option Np (result ! i), Some e)"
    using loop_I_first_raises [of ps s "self_I s" "xs ! i" "map_option Np (result ! i)"] Cons
    by blast
  then show ?thesis using i by (simp add: loop_j_loop_I val_Np_option)
qed

lemma loop_i_E_zero_py:
  assumes E: "val (self_E s) = 0" "is_py (self_E s)" "is_py (self_I s)"
      and P: "\<And>Ps. self_P s = Some Ps \<Longrightarrow> list_all is_py Ps"
      and X: "\<And>Xs. self_x s = Some Xs \<Longrightarrow> list_all is_py Xs"
      and xs: "list_all is_py xs"
  shows "\<forall>i \<in> set idxs. i < length xs \<and> i < length result \<Longrightarrow>
         fst (loop_i s xs idxs result) = result"
proof (induction idxs arbitrary: result)
  case Nil
  then show ?case by simp
next
  case (Cons i idxs)
  show ?case
  proof (cases "py_enumerate (self_P s)")
    case (Inl e)
    then show ?thesis by simp
  next
    case (Inr ps)
    then obtain Ps where Ps: "self_P s = Some Ps" "ps = zip [0..<length Ps] Ps"
      by (auto simp add: py_enumerate_def split: option.splits)
    have py: "is_py Q" if "(j, Q) \<in> set ps" for j Q
    proof -
      from that have "Q \<in> set Ps" unfolding Ps(2) by (rule set_zip_rightD)
      then show ?thesis using P [OF Ps(1)] by (simp add: list_all_iff)
    qed
    have xi: "is_py (xs ! i)" using xs Cons.prems by (simp add: list_all_length)
    obtain r e where j: "loop_j s xs i ps result = (r, e)" by (cases "loop_j s xs i ps result")
    have r: "r = result"
      using loop_j_E_zero_py [of s ps xs i result] E py X xi Cons.prems j by simp
    show ?thesis using Cons.IH [of result] Cons.prems by (cases e) (simp_all add: Inr j r)
  qed
qed

lemma get_y_E_zero_py:
  assumes "val (self_E s) = 0" "is_py (self_E s)" "is_py (self_I s)"
      and "\<And>Ps. self_P s = Some Ps \<Longrightarrow> list_all is_py Ps"
      and "\<And>Xs. self_x s = Some Xs \<Longrightarrow> list_all is_py Xs"
      and "list_all is_py xs"
  shows "fst (get_y s xs) = replicate (length xs) (Some 0)"
proof (cases "val (self_I s) = 0")
  case True
  then show ?thesis by (simp add: get_y_def)
next
  case False
  have "fst (loop_i s xs [0..<length xs] (replicate (length xs) (Some 0)))
          = replicate (length xs) (Some 0)"
    by (rule loop_i_E_zero_py [OF assms]) (simp_all add: list_all_length)
  then show ?thesis using False by (auto simp add: get_y_def split: prod.splits option.splits)
qed

subsection \<open>Load sequences of different lengths\<close>

lemma zip_take_shorter: "zip Ps (take (length Ps) Xs) = zip Ps Xs"
proof (induction Ps arbitrary: Xs)
  case Nil
  then show ?case by simp
next
  case (Cons P Ps)
  then show ?case by (cases Xs) simp_all
qed

lemma loop_I_too_many:
  "self_x s = Some Xs \<Longrightarrow> k \<le> length Xs \<Longrightarrow> length Xs < k + length Ps \<Longrightarrow>
   \<exists>r e. loop_I s d x (zip [k..<k + length Ps] Ps) acc = (r, Some e)"
proof (induction Ps arbitrary: k acc)
  case Nil
  then show ?case by simp
next
  case (Cons P Ps)
  show ?case
  proof (cases "termo s d x k P")
    case (Inl e)
    then show ?thesis by (simp only: enumerate_Cons loop_I.simps sum.case) blast
  next
    case (Inr t)
    have "k < length Xs"
    proof (rule ccontr)
      assume "\<not> k < length Xs"
      then have "termo s d x k P = Inl IndexError"
        using Cons.prems by (simp add: termo_def py_index_def)
      then show False using Inr by simp
    qed
    then have "\<exists>r e. loop_I s d x (zip [Suc k..<Suc k + length Ps] Ps) (py_add acc t) = (r, Some e)"
      using Cons.prems by (intro Cons.IH) simp_all
    then show ?thesis by (simp only: enumerate_Cons loop_I.simps sum.case Inr)
  qed
qed

lemma get_y_first_fails:
  assumes P: "self_P s = Some Ps" and I: "val (self_I s) \<noteq> 0" and xs: "xs \<noteq> []"
      and f: "\<And>xi acc. \<exists>r e. loop_I s (self_I s) xi (zip [0..<length Ps] Ps) acc = (r, Some e)"
  shows "snd (get_y s xs) = [msg_carregamento]"
proof -
  let ?z = "replicate (length xs) (Some (0::real))"
  from f [of "xs ! 0" "Some (Np 0)"] obtain r e
    where l: "loop_I s (self_I s) (xs ! 0) (zip [0..<length Ps] Ps) (Some (Np 0)) = (r, Some e)"
    by blast
  have j: "loop_j s xs 0 (zip [0..<length Ps] Ps) ?z = (?z[0 := map_option val r], Some e)"
    using xs by (simp add: loop_j_loop_I l)
  have u: "[0..<length xs] = 0 # [Suc 0..<length xs]"
    using upt_conv_Cons [of 0 "length xs"] xs by simp
  have "loop_i s xs [0..<length xs] ?z = (?z[0 := map_option val r], Some e)"
    by (simp only: u loop_i.simps) (simp add: py_enumerate_def P j)
  then show ?thesis using I by (simp add: get_y_def)
qed



subsection \<open>Exchanging the divisor\<close>

lemma spec_term_scale:
  "E \<noteq> 0 \<Longrightarrow> I \<noteq> 0 \<Longrightarrow> y \<noteq> 0 \<Longrightarrow>
   spec_term E y P xj xi = spec_term E I P xj xi * (I / y)"
  by (simp add: spec_term_def field_simps)

text \<open>
  With two non-zero divisors \<open>I\<close> and \<open>y\<close> the term raises for the one exactly when it
  raises for the other, and the values differ by the factor \<open>I / y\<close>.
\<close>

lemma termo_scale:
  assumes "val I \<noteq> 0" and "val y \<noteq> 0"
  shows "case termo s I x j P of
           Inl e \<Rightarrow> termo s y x j P = Inl e
         | Inr None \<Rightarrow> termo s y x j P = Inr None
         | Inr (Some n) \<Rightarrow>
             (\<exists>m. termo s y x j P = Inr (Some m) \<and> val m = val n * (val I / val y))"
proof (cases "py_index (self_x s) j")
  case (Inl e)
  then show ?thesis by (simp add: termo_def)
next
  case (Inr xj)
  show ?thesis
  proof (cases "val (self_E s) = 0")
    case True
    then show ?thesis by (simp add: termo_def Inr parcela_E_zero)
  next
    case False
    then show ?thesis
      using assms
      by (simp add: termo_def Inr parcela_ok spec_term_scale [of _ "val I" "val y"])
  qed
qed

lemma loop_I_scale:
  assumes "val I \<noteq> 0" and "val y \<noteq> 0"
  shows "map_option val a = map_option (\<lambda>v. v * (val I / val y)) (map_option val b) \<Longrightarrow>
         \<exists>r1 r2 e. loop_I s y x ps a = (r1, e) \<and> loop_I s I x ps b = (r2, e) \<and>
           map_option val r1 = map_option (\<lambda>v. v * (val I / val y)) (map_option val r2)"
proof (induction ps arbitrary: a b)
  case Nil
  then show ?case by simp
next
  case (Cons p ps)
  obtain j P where p: "p = (j, P)" by (cases p)
  note ts = termo_scale [OF assms, of s x j P]
  show ?case
  proof (cases "termo s I x j P")
    case (Inl e)
    then have "termo s y x j P = Inl e" using ts by simp
    then show ?thesis using Inl Cons.prems by (simp add: p)
  next
    case (Inr t)
    show ?thesis
    proof (cases t)
      case None
      then have ty: "termo s y x j P = Inr None" using ts Inr by simp
      have "\<exists>r1 r2 e. loop_I s y x ps None = (r1, e) \<and> loop_I s I x ps None = (r2, e) \<and>
              map_option val r1 = map_option (\<lambda>v. v * (val I / val y)) (map_option val r2)"
        by (rule Cons.IH) simp
      then show ?thesis by (simp add: p Inr None ty py_add_None)
    next
      case (Some n)
      then obtain m where ty: "termo s y x j P = Inr (Some m)"
        and m: "val m = val n * (val I / val y)"
        using ts Inr by auto
      have "map_option val (py_add a (Some m)) =
              map_option (\<lambda>v. v * (val I / val y)) (map_option val (py_add b (Some n)))"
        by (simp add: val_py_add Cons.prems m option.map_comp comp_def distrib_right
            add_divide_distrib)
      then have "\<exists>r1 r2 e. loop_I s y x ps (py_add a (Some m)) = (r1, e) \<and>
              loop_I s I x ps (py_add b (Some n)) = (r2, e) \<and>
              map_option val r1 = map_option (\<lambda>v. v * (val I / val y)) (map_option val r2)"
        by (rule Cons.IH)
      then show ?thesis by (simp add: p Inr Some ty)
    qed
  qed
qed

lemma get_y_single:
  assumes "val (self_I s) \<noteq> 0" and "self_P s = Some Ps"
  shows "fst (get_y s [x]) =
           [map_option val (fst (loop_I s (self_I s) x (zip [0..<length Ps] Ps) (Some (Np 0))))]"
proof -
  obtain r e where l: "loop_I s (self_I s) x (zip [0..<length Ps] Ps) (Some (Np 0)) = (r, e)"
    by (cases "loop_I s (self_I s) x (zip [0..<length Ps] Ps) (Some (Np 0))")
  have j: "loop_j s [x] 0 (zip [0..<length Ps] Ps) [Some 0] = ([map_option val r], e)"
    by (simp add: loop_j_loop_I l)
  have li: "loop_i s [x] [0] [Some 0] = ([map_option val r], e)"
    by (cases e) (simp_all add: py_enumerate_def assms j)
  have "get_y s [x] = ([map_option val r], case e of None \<Rightarrow> [] | Some e' \<Rightarrow> [msg_carregamento])"
    using assms by (cases e) (simp_all add: get_y_def li del: loop_i.simps)
  then show ?thesis by (simp add: l)
qed

section \<open>The deflection is the superposition of the loads\<close>

text \<open>
  Claim C1. For every sequence \<open>xs\<close> of query positions and every configured load set
  (magnitudes \<open>Ps\<close> at positions \<open>Xs\<close>, of equal length), on a beam with \<open>I\<close> set
  non-zero and a non-zero modulus \<open>E\<close> (the formula divides by \<open>6 E I\<close>),
  \<open>get_y\<close> prints nothing and returns a sequence as long as \<open>xs\<close> whose entry for
  \<open>xi\<close> is the sum over the loads \<open>(P, xj)\<close> of
  \<open>P xi\<^sup>3 / (6 E I) - P xj xi\<^sup>2 / (2 E I)\<close> when \<open>xi < xj\<close> and of
  \<open>P xj\<^sup>3 / (6 E I) - P xi xj\<^sup>2 / (2 E I)\<close> otherwise. This holds whether the
  numbers are Python numbers or numpy scalars.
\<close>

theorem get_y_superposition:
  assumes "self_P s = Some Ps" and "self_x s = Some Xs" and "length Ps = length Xs"
      and "val (self_E s) \<noteq> 0" and "val (self_I s) \<noteq> 0"
  shows "get_y s xs =
           (map (\<lambda>xi. Some (\<Sum>(P, xj) \<leftarrow> zip Ps Xs.
                   if val xi < val xj
                   then val P * val xi ^ 3 / (6 * val (self_E s) * val (self_I s))
                        - val P * val xj * val xi ^ 2 / (2 * val (self_E s) * val (self_I s))
                   else val P * val xj ^ 3 / (6 * val (self_E s) * val (self_I s))
                        - val P * val xi * val xj ^ 2 / (2 * val (self_E s) * val (self_I s)))) xs,
            [])
         \<and> length (fst (get_y s xs)) = length xs"
  using get_y_sum [of s Ps Xs xs] assms
  by (simp add: spec_term_def)

theorem get_y_superposition_witness:
  "get_y \<lparr>self_L = Py 2, self_E = Py 1, self_I = Py 1,
          self_P = Some [Np 6], self_x = Some [Np 1]\<rparr> [Py (1 / 2), Py 2]
     = ([Some (- 5 / 8), Some (- 5)], [])"
  using get_y_superposition
    [of "\<lparr>self_L = Py 2, self_E = Py 1, self_I = Py 1,
           self_P = Some [Np 6], self_x = Some [Np 1]\<rparr>"
        "[Np 6]" "[Np 1]" "[Py (1 / 2), Py 2]"]
  by (simp add: power3_eq_cube power2_eq_square)

section \<open>The inverse recovers the moment of inertia\<close>

text \<open>
  Claim C2. For every load configuration, every \<open>I\<close> and every query position \<open>x\<close>:
  if the deflection \<open>get_y([x])[0]\<close> is a non-zero number \<open>y\<close>, then \<open>get_I(y, x)\<close>
  returns the \<open>I\<close> of the object, exactly, whether \<open>y\<close> is handed over as a Python
  number or as a numpy scalar. A non-zero \<open>y\<close> already implies that \<open>I\<close> and \<open>E\<close>
  are non-zero and that the loads are set, so no further hypothesis is needed; the two
  methods stop at the same load when the sequences are malformed.
\<close>

theorem get_I_inverts_get_y:
  assumes y: "fst (get_y s [x]) ! 0 = Some (val y)" and nz: "val y \<noteq> 0"
  shows "map_option val (fst (get_I s y x)) = Some (val (self_I s))"
proof -
  have I: "val (self_I s) \<noteq> 0"
  proof
    assume "val (self_I s) = 0"
    then have "fst (get_y s [x]) = [Some 0]" by (simp add: get_y_def)
    then show False using y nz by simp
  qed
  obtain Ps where P: "self_P s = Some Ps"
  proof (cases "self_P s")
    case None
    then have "fst (get_y s [x]) = [Some 0]" using I by (simp add: get_y_def py_enumerate_def)
    then show ?thesis using y nz by simp
  next
    case (Some Ps)
    then show ?thesis by (rule that)
  qed
  let ?ps = "zip [0..<length Ps] Ps"
  have "map_option val (Some (Py 0)) =
          map_option (\<lambda>v. v * (val (self_I s) / val y)) (map_option val (Some (Np 0)))"
    by simp
  from loop_I_scale [OF I nz this, of s x ?ps] obtain r1 r2 e where
    l1: "loop_I s y x ?ps (Some (Py 0)) = (r1, e)" and
    l2: "loop_I s (self_I s) x ?ps (Some (Np 0)) = (r2, e)" and
    v: "map_option val r1 = map_option (\<lambda>v. v * (val (self_I s) / val y)) (map_option val r2)"
    by blast
  have "map_option val r2 = Some (val y)"
    using get_y_single [OF I P, of x] y by (simp add: l2)
  then have "map_option val r1 = Some (val y * (val (self_I s) / val y))"
    using v by (simp only: option.map)
  then have "map_option val r1 = Some (val (self_I s))"
    using nz by simp
  then show ?thesis
    by (cases e) (simp_all add: get_I_def py_enumerate_def P l1)
qed

theorem get_I_inverts_get_y_witness:
  "fst (get_y ((init (Py 2) (Py 3) (Py 5))\<lparr>self_P := Some [Np 45], self_x := Some [Np 2]\<rparr>)
          [Py 2]) ! 0 = Some (- 8)
   \<and> map_option val
        (fst (get_I ((init (Py 2) (Py 3) (Py 5))\<lparr>self_P := Some [Np 45], self_x := Some [Np 2]\<rparr>)
               (Np (- 8)) (Py 2))) = Some 5"
proof -
  let ?s = "(init (Py 2) (Py 3) (Py 5))\<lparr>self_P := Some [Np 45], self_x := Some [Np 2]\<rparr>"
  have y: "fst (get_y ?s [Py 2]) ! 0 = Some (val (Np (- 8)))"
    by (simp add: get_y_def init_def py_enumerate_def termo_def py_index_def parcela_def
        py_div_def py_sub_def py_mul_def py_pow_def mk_def np_iadd_def)
  have nz: "val (Np (- 8)) \<noteq> 0" by simp
  from get_I_inverts_get_y [OF y nz] show ?thesis using y by (simp add: init_def)
qed

section \<open>A single load at the free end\<close>

text \<open>
  Claim C3. For every beam with \<open>L > 0\<close>, \<open>E > 0\<close> and \<open>I \<noteq> 0\<close> that carries
  exactly one point load \<open>P\<close> at position \<open>L\<close>, the deflection at the query position
  \<open>L\<close> is \<open>- P L\<^sup>3 / (3 E I)\<close>. The load position \<open>X\<close> and the query \<open>Q\<close> are
  the number \<open>L\<close>, each of either kind.
\<close>

theorem get_y_tip_load:
  assumes "0 < val L" and "0 < val E" and "val I \<noteq> 0"
      and "val X = val L" and "val Q = val L"
  shows "get_y ((init L E I)\<lparr>self_P := Some [P], self_x := Some [X]\<rparr>) [Q]
           = ([Some (- val P * val L ^ 3 / (3 * val E * val I))], [])"
proof -
  let ?s = "(init L E I)\<lparr>self_P := Some [P], self_x := Some [X]\<rparr>"
  have "get_y ?s [Q] =
          (map (\<lambda>xi. Some (sum_list (map2
                  (\<lambda>P xj. spec_term (val (self_E ?s)) (val (self_I ?s)) (val P) (val xj) (val xi))
                  [P] [X]))) [Q],
           [])"
    by (rule get_y_sum) (use assms in \<open>simp_all add: init_def\<close>)
  also have "\<dots> = ([Some (val P * val L ^ 3 / (6 * val E * val I)
                          - val P * val L * val L ^ 2 / (2 * val E * val I))], [])"
    using assms by (simp add: init_def spec_term_def)
  also have "val P * val L ^ 3 / (6 * val E * val I)
               - val P * val L * val L ^ 2 / (2 * val E * val I)
             = - val P * val L ^ 3 / (3 * val E * val I)"
    using assms by (simp add: field_simps power3_eq_cube power2_eq_square)
  finally show ?thesis .
qed

theorem get_y_tip_load_witness:
  "get_y ((init (Py 2) (Py 3) (Py 5))\<lparr>self_P := Some [Np 45], self_x := Some [Np 2]\<rparr>) [Py 2]
     = ([Some (- 8)], [])"
  using get_y_tip_load [of "Py 2" "Py 3" "Py 5" "Np 2" "Py 2" "Np 45"] by simp

section \<open>Superposition of two load sets\<close>

text \<open>
  Claim C4. For every two load sets \<open>A = (PA, XA)\<close> and \<open>B = (PB, XB)\<close> on the same
  beam (same \<open>L\<close> and \<open>E\<close>, non-zero \<open>I\<close>) and every query position, the deflection
  with the concatenation of \<open>A\<close> and \<open>B\<close> configured is the sum of the deflection with
  \<open>A\<close> alone and the deflection with \<open>B\<close> alone. The three deflections are finite
  numbers. This is proved for every beam with a non-zero modulus and numbers of either
  kind, and also for a zero modulus when all the numbers are Python numbers.
\<close>

theorem get_y_concat:
  assumes A: "length PA = length XA" and B: "length PB = length XB"
      and I: "val (self_I s) \<noteq> 0" and i: "i < length xs"
      and E: "val (self_E s) \<noteq> 0
              \<or> (is_py (self_E s) \<and> is_py (self_I s) \<and> list_all is_py (PA @ PB)
                 \<and> list_all is_py (XA @ XB) \<and> list_all is_py xs)"
  shows "\<exists>a b. fst (get_y (s\<lparr>self_P := Some PA, self_x := Some XA\<rparr>) xs) ! i = Some a
             \<and> fst (get_y (s\<lparr>self_P := Some PB, self_x := Some XB\<rparr>) xs) ! i = Some b
             \<and> fst (get_y (s\<lparr>self_P := Some (PA @ PB), self_x := Some (XA @ XB)\<rparr>) xs) ! i
                 = Some (a + b)"
proof (cases "val (self_E s) = 0")
  case True
  have "fst (get_y (s\<lparr>self_P := Some Ps, self_x := Some Xs\<rparr>) xs) = replicate (length xs) (Some 0)"
    if "list_all is_py Ps" and "list_all is_py Xs" for Ps Xs
    by (rule get_y_E_zero_py) (use True E that in simp_all)
  from this [of PA XA] this [of PB XB] this [of "PA @ PB" "XA @ XB"]
  show ?thesis using True E i by simp
next
  case False
  let ?f = "\<lambda>xi P xj. spec_term (val (self_E s)) (val (self_I s)) (val P) (val xj) (val xi)"
  have "get_y (s\<lparr>self_P := Some Ps, self_x := Some Xs\<rparr>) xs =
          (map (\<lambda>xi. Some (sum_list (map2 (?f xi) Ps Xs))) xs, [])"
    if "length Ps = length Xs" for Ps Xs
    using get_y_sum [of "s\<lparr>self_P := Some Ps, self_x := Some Xs\<rparr>" Ps Xs xs] that False I
    by simp
  from this [of PA XA] this [of PB XB] this [of "PA @ PB" "XA @ XB"]
  show ?thesis using A B i by simp
qed

theorem get_y_concat_witness:
  "(\<exists>a b. fst (get_y \<lparr>self_L = Py 3, self_E = Py 1, self_I = Py 1,
                      self_P = Some [Py 6], self_x = Some [Py 1]\<rparr> [Py 1, Py 3]) ! 1 = Some a
       \<and> fst (get_y \<lparr>self_L = Py 3, self_E = Py 1, self_I = Py 1,
                      self_P = Some [Np 12], self_x = Some [Np 2]\<rparr> [Py 1, Py 3]) ! 1 = Some b
       \<and> fst (get_y \<lparr>self_L = Py 3, self_E = Py 1, self_I = Py 1,
                      self_P = Some ([Py 6] @ [Np 12]), self_x = Some ([Py 1] @ [Np 2])\<rparr>
                 [Py 1, Py 3]) ! 1 = Some (a + b))
   \<and> (\<exists>a b. fst (get_y \<lparr>self_L = Py 3, self_E = Py 0, self_I = Py 1,
                      self_P = Some [Py 6], self_x = Some [Py 1]\<rparr> [Py 1, Py 3]) ! 1 = Some a
       \<and> fst (get_y \<lparr>self_L = Py 3, self_E = Py 0, self_I = Py 1,
                      self_P = Some [Py 12], self_x = Some [Py 2]\<rparr> [Py 1, Py 3]) ! 1 = Some b
       \<and> fst (get_y \<lparr>self_L = Py 3, self_E = Py 0, self_I = Py 1,
                      self_P = Some ([Py 6] @ [Py 12]), self_x = Some ([Py 1] @ [Py 2])\<rparr>
                 [Py 1, Py 3]) ! 1 = Some (a + b))"
  using get_y_concat [of "[Py 6]" "[Py 1]" "[Np 12]" "[Np 2]"
      "\<lparr>self_L = Py 3, self_E = Py 1, self_I = Py 1, self_P = None, self_x = None\<rparr>"
      1 "[Py 1, Py 3]"]
    get_y_concat [of "[Py 6]" "[Py 1]" "[Py 12]" "[Py 2]"
      "\<lparr>self_L = Py 3, self_E = Py 0, self_I = Py 1, self_P = None, self_x = None\<rparr>"
      1 "[Py 1, Py 3]"]
  by simp

section \<open>Evaluation without a moment of inertia\<close>

text \<open>
  Claim C5 says that \<open>get_y\<close> with \<open>I\<close> unset raises a missing-stiffness error and
  yields no numeric result. The method raises nothing: at the input below it returns
  the array \<open>[0]\<close> to its caller, after printing a message.
\<close>

theorem get_y_unset_inertia_returns:
  "get_y ((init (Py 1) (Py 1) (Py 0))\<lparr>self_P := Some [Py 1], self_x := Some [Py 1]\<rparr>) [Py 1]
     = ([Some 0], [msg_inercia])"
  by (simp add: get_y_def init_def)

text \<open>
  Claim C5, as the code has it. For every sequence of query positions, if \<open>I\<close> is
  zero, \<open>get_y\<close> prints the message about the moment of inertia and returns the
  all-zero sequence of the same length as the query sequence.
\<close>

theorem get_y_unset_inertia:
  "val (self_I s) = 0 \<Longrightarrow> get_y s xs = (replicate (length xs) (Some 0), [msg_inercia])"
  by (simp add: get_y_def)

theorem get_y_unset_inertia_witness:
  "get_y (init (Py 2) (Py 3) (Py 0)) [Py 1, Py 2] = ([Some 0, Some 0], [msg_inercia])"
  using get_y_unset_inertia [of "init (Py 2) (Py 3) (Py 0)" "[Py 1, Py 2]"]
  by (simp add: init_def numeral_2_eq_2)

section \<open>The inverse with a zero target deflection\<close>

text \<open>
  Claim C6 says that \<open>get_I\<close> with \<open>y = 0\<close> raises a division-by-zero condition to
  the caller rather than producing a number. It raises nothing. With loads given as
  Python numbers the \<open>ZeroDivisionError\<close> of the first term is caught inside the
  method, which prints the message about the loads and returns the finite number \<open>0\<close>.
  With the same loads given as numpy scalars no division raises: the method prints
  nothing and returns a value that is not a finite number (\<open>nan\<close>).
\<close>

theorem get_I_zero_target_returns:
  "get_I ((init (Py 1) (Py 1) (Py 1))\<lparr>self_P := Some [Py 1], self_x := Some [Py 1]\<rparr>) (Py 0) (Py 1)
     = (Some (Py 0), [msg_carregamento])
   \<and> get_I ((init (Py 1) (Py 1) (Py 1))\<lparr>self_P := Some [Np 1], self_x := Some [Np 1]\<rparr>) (Py 0) (Py 1)
     = (None, [])"
  by (simp add: get_I_def init_def py_enumerate_def termo_def py_index_def parcela_def
      py_div_def py_sub_def py_add_def py_mul_def py_pow_def mk_def)

text \<open>
  Claim C6, as the code has it. For every query position \<open>x\<close>, \<open>get_I\<close> called
  with \<open>y = 0\<close> raises nothing to its caller and returns either the initial \<open>0\<close> of
  its accumulator or a value that is \<open>inf\<close> or \<open>nan\<close>. When \<open>y\<close>, \<open>x\<close>, \<open>E\<close>, the
  magnitudes and the positions are Python numbers and there is at least one load, it
  prints the message about the loads and returns \<open>0\<close>. When the magnitudes are numpy
  scalars, there is at least one load and no fewer positions than magnitudes, it prints
  nothing and returns \<open>inf\<close> or \<open>nan\<close>.
\<close>

theorem get_I_zero_target:
  assumes "val y = 0"
  shows "(fst (get_I s y x) = Some (Py 0) \<or> fst (get_I s y x) = None)
       \<and> (is_py y \<and> is_py x \<and> is_py (self_E s)
            \<and> self_P s = Some Ps \<and> Ps \<noteq> [] \<and> list_all is_py Ps
            \<and> (\<forall>Xs. self_x s = Some Xs \<longrightarrow> list_all is_py Xs) \<longrightarrow>
          get_I s y x = (Some (Py 0), [msg_carregamento]))
       \<and> (self_P s = Some Ps \<and> Ps \<noteq> [] \<and> list_all (\<lambda>P. \<not> is_py P) Ps
            \<and> self_x s = Some Xs \<and> length Ps \<le> length Xs \<longrightarrow>
          get_I s y x = (None, []))"
proof (intro conjI impI)
  show "fst (get_I s y x) = Some (Py 0) \<or> fst (get_I s y x) = None"
  proof (cases "self_P s")
    case None
    then show ?thesis by (simp add: get_I_def py_enumerate_def)
  next
    case (Some Qs)
    obtain r e where l: "loop_I s y x (zip [0..<length Qs] Qs) (Some (Py 0)) = (r, e)"
      by (cases "loop_I s y x (zip [0..<length Qs] Qs) (Some (Py 0))")
    have "r = Some (Py 0) \<or> r = None"
      using loop_I_zero_divisor [of s y x "zip [0..<length Qs] Qs" "Some (Py 0)"] assms l
      by simp
    then show ?thesis by (cases e) (auto simp add: get_I_def py_enumerate_def Some l)
  qed
next
  assume "is_py y \<and> is_py x \<and> is_py (self_E s)
            \<and> self_P s = Some Ps \<and> Ps \<noteq> [] \<and> list_all is_py Ps
            \<and> (\<forall>Xs. self_x s = Some Xs \<longrightarrow> list_all is_py Xs)"
  then show "get_I s y x = (Some (Py 0), [msg_carregamento])"
    using assms by (intro get_I_zero_py [of y x s Ps]) simp_all
next
  assume "self_P s = Some Ps \<and> Ps \<noteq> [] \<and> list_all (\<lambda>P. \<not> is_py P) Ps
            \<and> self_x s = Some Xs \<and> length Ps \<le> length Xs"
  then show "get_I s y x = (None, [])"
    using assms by (intro get_I_zero_np [of y s Ps Xs]) simp_all
qed

theorem get_I_zero_target_witness:
  "get_I ((init (Py 2) (Py 3) (Py 5))\<lparr>self_P := Some [Py 7], self_x := Some [Py 1]\<rparr>) (Py 0) (Py 1)
     = (Some (Py 0), [msg_carregamento])
   \<and> get_I ((init (Py 2) (Py 3) (Py 5))\<lparr>self_P := Some [Np 7], self_x := Some [Np 1]\<rparr>) (Py 0) (Py 1)
     = (None, [])"
  using get_I_zero_target
      [of "Py 0" "(init (Py 2) (Py 3) (Py 5))\<lparr>self_P := Some [Py 7], self_x := Some [Py 1]\<rparr>"
          "Py 1" "[Py 7]" "[Py 1]"]
    get_I_zero_target
      [of "Py 0" "(init (Py 2) (Py 3) (Py 5))\<lparr>self_P := Some [Np 7], self_x := Some [Np 1]\<rparr>"
          "Py 1" "[Np 7]" "[Np 1]"]
  by (simp add: init_def)

section \<open>Missing or malformed loads\<close>

text \<open>
  Claim C7 says that \<open>get_y\<close> signals a failure to the caller when the loads are unset
  or the two sequences differ in length. With one magnitude and two positions it prints
  nothing and returns a deflection; with the loads unset it returns \<open>[0]\<close>, the failure
  being a printed line only.
\<close>

theorem load_configuration_failures_not_raised:
  "get_y ((init (Py 2) (Py 1) (Py 1))\<lparr>self_P := Some [Py 1], self_x := Some [Py 1, Py 2]\<rparr>) [Py 1]
     = ([Some (- 1 / 3)], [])
   \<and> get_y (init (Py 2) (Py 1) (Py 1)) [Py 1] = ([Some 0], [msg_carregamento])"
  by (simp add: get_y_def init_def py_enumerate_def termo_def py_index_def parcela_def
      py_div_def py_sub_def py_mul_def py_pow_def mk_def np_iadd_def)

text \<open>
  Claim C7, as the code has it. With \<open>I\<close> non-zero and a non-empty query sequence:
  if the magnitudes are unset, \<open>get_y\<close> prints the message about the loads and returns
  the all-zero sequence; if there are more magnitudes than positions, it prints that
  message and returns a sequence of the same length as the query sequence. \<open>get_I\<close>
  with the magnitudes unset prints the same message and returns \<open>0\<close>. Nothing is
  raised to the caller in either method. (More positions than magnitudes is not signalled
  at all: see claim C9.)
\<close>

theorem load_configuration_failures:
  "(self_P s = None \<and> val (self_I s) \<noteq> 0 \<and> xs \<noteq> [] \<longrightarrow>
      get_y s xs = (replicate (length xs) (Some 0), [msg_carregamento]))
   \<and> (self_P s = Some Ps \<and> self_x s = Some Xs \<and> length Xs < length Ps
        \<and> val (self_I s) \<noteq> 0 \<and> xs \<noteq> [] \<longrightarrow>
      snd (get_y s xs) = [msg_carregamento] \<and> length (fst (get_y s xs)) = length xs)
   \<and> (self_P s = None \<longrightarrow> get_I s y x = (Some (Py 0), [msg_carregamento]))"
proof (intro conjI impI)
  assume a: "self_P s = None \<and> val (self_I s) \<noteq> 0 \<and> xs \<noteq> []"
  then have u: "[0..<length xs] = 0 # [Suc 0..<length xs]"
    using upt_conv_Cons [of 0 "length xs"] by simp
  have "loop_i s xs [0..<length xs] (replicate (length xs) (Some 0))
          = (replicate (length xs) (Some 0), Some TypeError)"
    by (simp only: u loop_i.simps) (simp add: py_enumerate_def a)
  then show "get_y s xs = (replicate (length xs) (Some 0), [msg_carregamento])"
    using a by (simp add: get_y_def)
next
  assume a: "self_P s = Some Ps \<and> self_x s = Some Xs \<and> length Xs < length Ps
        \<and> val (self_I s) \<noteq> 0 \<and> xs \<noteq> []"
  have "\<exists>r e. loop_I s (self_I s) xi (zip [0..<length Ps] Ps) acc = (r, Some e)" for xi acc
    using loop_I_too_many [of s Xs 0 Ps "self_I s" xi acc] a by simp
  then show "snd (get_y s xs) = [msg_carregamento]"
    using a by (intro get_y_first_fails [of s Ps]) simp_all
next
  show "length (fst (get_y s xs)) = length xs" by (rule get_y_length)
next
  assume "self_P s = None"
  then show "get_I s y x = (Some (Py 0), [msg_carregamento])"
    by (simp add: get_I_def py_enumerate_def)
qed

theorem load_configuration_failures_witness:
  "get_y (init (Py 2) (Py 3) (Py 5)) [Py 1, Np 2] = ([Some 0, Some 0], [msg_carregamento])
   \<and> snd (get_y ((init (Py 2) (Py 3) (Py 5))\<lparr>self_P := Some [Np 1, Np 2], self_x := Some [Np 1]\<rparr>)
            [Py 1, Np 2]) = [msg_carregamento]
   \<and> length (fst (get_y ((init (Py 2) (Py 3) (Py 5))\<lparr>self_P := Some [Np 1, Np 2], self_x := Some [Np 1]\<rparr>)
            [Py 1, Np 2])) = 2
   \<and> get_I (init (Py 2) (Py 3) (Py 5)) (Py 1) (Py 1) = (Some (Py 0), [msg_carregamento])"
  using load_configuration_failures
      [of "init (Py 2) (Py 3) (Py 5)" "[Py 1, Np 2]" "[]" "[]" "Py 1" "Py 1"]
    load_configuration_failures
      [of "(init (Py 2) (Py 3) (Py 5))\<lparr>self_P := Some [Np 1, Np 2], self_x := Some [Np 1]\<rparr>"
          "[Py 1, Np 2]" "[Np 1, Np 2]" "[Np 1]" "Py 1" "Py 1"]
  by (simp add: init_def numeral_2_eq_2)

section \<open>What the mutators change\<close>

text \<open>
  Claim C8. For every store and every object in it: \<open>set_P(P, x)\<close> replaces exactly
  the stored magnitude and position sequences, \<open>set_I(I)\<close> replaces exactly the stored
  \<open>I\<close>, each returns the reference it was called on, and neither changes another
  attribute or another object. \<open>get_y\<close> and \<open>get_I\<close> leave the store as it is, so
  that no operation changes \<open>L\<close> or \<open>E\<close>.
\<close>

theorem mutators_frame:
  assumes "h self = Some s"
  shows "(\<exists>h' s'. set_P h self P x = Some (h', self) \<and> h' self = Some s'
            \<and> self_P s' = Some P \<and> self_x s' = Some x
            \<and> self_L s' = self_L s \<and> self_E s' = self_E s \<and> self_I s' = self_I s
            \<and> (\<forall>r. r \<noteq> self \<longrightarrow> h' r = h r))
       \<and> (\<exists>h' s'. set_I h self I = Some (h', self) \<and> h' self = Some s'
            \<and> self_I s' = I
            \<and> self_L s' = self_L s \<and> self_E s' = self_E s
            \<and> self_P s' = self_P s \<and> self_x s' = self_x s
            \<and> (\<forall>r. r \<noteq> self \<longrightarrow> h' r = h r))
       \<and> call_get_y h self xs = Some (h, get_y s xs)
       \<and> call_get_I h self y q = Some (h, get_I s y q)"
  using assms by (simp add: set_P_def set_I_def call_get_y_def call_get_I_def)

theorem mutators_frame_witness:
  "(\<exists>h'. set_P [0 \<mapsto> init (Py 1) (Py 2) (Py 3), 1 \<mapsto> init (Py 4) (Py 5) (Py 6)] 0 [Np 7] [Np 8]
            = Some (h', 0)
       \<and> map_option self_P (h' 0) = Some (Some [Np 7])
       \<and> map_option self_x (h' 0) = Some (Some [Np 8])
       \<and> map_option self_L (h' 0) = Some (Py 1)
       \<and> map_option self_E (h' 0) = Some (Py 2)
       \<and> map_option self_I (h' 0) = Some (Py 3)
       \<and> h' 1 = Some (init (Py 4) (Py 5) (Py 6)))
   \<and> (\<exists>h'. set_I [0 \<mapsto> init (Py 1) (Py 2) (Py 3), 1 \<mapsto> init (Py 4) (Py 5) (Py 6)] 0 (Py 9)
            = Some (h', 0)
       \<and> map_option self_I (h' 0) = Some (Py 9)
       \<and> map_option self_L (h' 0) = Some (Py 1)
       \<and> map_option self_E (h' 0) = Some (Py 2)
       \<and> h' 1 = Some (init (Py 4) (Py 5) (Py 6)))"
proof -
  let ?h = "[0 \<mapsto> init (Py 1) (Py 2) (Py 3), 1 \<mapsto> init (Py 4) (Py 5) (Py 6)] :: store"
  have h0: "?h 0 = Some (init (Py 1) (Py 2) (Py 3))" by simp
  note m = mutators_frame [of ?h 0 "init (Py 1) (Py 2) (Py 3)" "[Np 7]" "[Np 8]" "Py 9", OF h0]
  from m obtain h' s' where
    "set_P ?h 0 [Np 7] [Np 8] = Some (h', 0)" "h' 0 = Some s'"
    "self_P s' = Some [Np 7]" "self_x s' = Some [Np 8]"
    "self_L s' = self_L (init (Py 1) (Py 2) (Py 3))"
    "self_E s' = self_E (init (Py 1) (Py 2) (Py 3))"
    "self_I s' = self_I (init (Py 1) (Py 2) (Py 3))" "\<forall>r. r \<noteq> 0 \<longrightarrow> h' r = ?h r"
    by blast
  then have a: "\<exists>h'. set_P ?h 0 [Np 7] [Np 8] = Some (h', 0)
       \<and> map_option self_P (h' 0) = Some (Some [Np 7])
       \<and> map_option self_x (h' 0) = Some (Some [Np 8])
       \<and> map_option self_L (h' 0) = Some (Py 1)
       \<and> map_option self_E (h' 0) = Some (Py 2)
       \<and> map_option self_I (h' 0) = Some (Py 3)
       \<and> h' 1 = Some (init (Py 4) (Py 5) (Py 6))"
    by (intro exI [of _ h']) (simp add: init_def)
  from m obtain k' t' where
    "set_I ?h 0 (Py 9) = Some (k', 0)" "k' 0 = Some t'" "self_I t' = Py 9"
    "self_L t' = self_L (init (Py 1) (Py 2) (Py 3))"
    "self_E t' = self_E (init (Py 1) (Py 2) (Py 3))"
    "\<forall>r. r \<noteq> 0 \<longrightarrow> k' r = ?h r"
    by blast
  then have b: "\<exists>h'. set_I ?h 0 (Py 9) = Some (h', 0)
       \<and> map_option self_I (h' 0) = Some (Py 9)
       \<and> map_option self_L (h' 0) = Some (Py 1)
       \<and> map_option self_E (h' 0) = Some (Py 2)
       \<and> h' 1 = Some (init (Py 4) (Py 5) (Py 6))"
    by (intro exI [of _ k']) (simp add: init_def)
  from a b show ?thesis by (rule conjI)
qed

section \<open>More positions than magnitudes\<close>

text \<open>
  Claim C9. For every load configuration whose position sequence is strictly longer
  than its magnitude sequence, on a beam with \<open>I\<close> and \<open>E\<close> non-zero, \<open>get_y\<close>
  prints nothing and returns the superposition over the first \<open>len(P)\<close> pairs of
  magnitude and position only; the further positions are ignored.
\<close>

theorem get_y_extra_positions:
  assumes "self_P s = Some Ps" and "self_x s = Some Xs" and "length Ps < length Xs"
      and "val (self_E s) \<noteq> 0" and "val (self_I s) \<noteq> 0"
  shows "get_y s xs =
           (map (\<lambda>xi. Some (\<Sum>(P, xj) \<leftarrow> zip Ps (take (length Ps) Xs).
                   if val xi < val xj
                   then val P * val xi ^ 3 / (6 * val (self_E s) * val (self_I s))
                        - val P * val xj * val xi ^ 2 / (2 * val (self_E s) * val (self_I s))
                   else val P * val xj ^ 3 / (6 * val (self_E s) * val (self_I s))
                        - val P * val xi * val xj ^ 2 / (2 * val (self_E s) * val (self_I s)))) xs,
            [])"
  using get_y_sum [of s Ps Xs xs] assms
  by (simp add: spec_term_def zip_take_shorter)

theorem get_y_extra_positions_witness:
  "get_y \<lparr>self_L = Py 3, self_E = Py 1, self_I = Py 1,
          self_P = Some [Np 6], self_x = Some [Np 1, Np 2, Np 3]\<rparr> [Py (1 / 2), Py 2]
     = ([Some (- 5 / 8), Some (- 5)], [])"
  using get_y_extra_positions
    [of "\<lparr>self_L = Py 3, self_E = Py 1, self_I = Py 1,
           self_P = Some [Np 6], self_x = Some [Np 1, Np 2, Np 3]\<rparr>"
        "[Np 6]" "[Np 1, Np 2, Np 3]" "[Py (1 / 2), Py 2]"]
  by (simp add: power3_eq_cube power2_eq_square)

section \<open>What the inverse returns after a failure\<close>




end
